theory Spec2Isabelle
  imports Main "HOL-Library.Word" "HOL-Library.Monad_Syntax"
begin

unbundle bit_operations_syntax

section \<open>Data model of package apdu (apdu.go)\<close>

text \<open>
  A Go \<open>byte\<close> is an 8-bit word. A Go \<open>[]byte\<close> is modelled by the list of its
  elements; the \<open>nil\<close> slice and the empty slice are both the empty list, and the
  capacity of a slice is taken to be its length (as for a slice literal or a slice made
  with exactly its length). Go's \<open>int\<close> is modelled by \<open>int\<close>: the code only compares,
  shifts, masks and converts these values and adds small constants to lengths, so no
  operation can overflow.
\<close>

type_synonym byte = "8 word"

abbreviation (input) OffsetCla :: int where "OffsetCla \<equiv> 0"
abbreviation (input) OffsetIns :: int where "OffsetIns \<equiv> 1"
abbreviation (input) OffsetP1 :: int where "OffsetP1 \<equiv> 2"
abbreviation (input) OffsetP2 :: int where "OffsetP2 \<equiv> 3"
abbreviation (input) OffsetLcStandard :: int where "OffsetLcStandard \<equiv> 4"
abbreviation (input) OffsetLcExtended :: int where "OffsetLcExtended \<equiv> 5"
abbreviation (input) OffsetCdataStandard :: int where "OffsetCdataStandard \<equiv> 5"
abbreviation (input) OffsetCdataExtended :: int where "OffsetCdataExtended \<equiv> 7"
abbreviation (input) MaxLenCommandDataStandard :: int where "MaxLenCommandDataStandard \<equiv> 255"
abbreviation (input) MaxLenResponseDataStandard :: int where "MaxLenResponseDataStandard \<equiv> 256"
abbreviation (input) MaxLenCommandDataExtended :: int where "MaxLenCommandDataExtended \<equiv> 65535"
abbreviation (input) MaxLenResponseDataExtended :: int where "MaxLenResponseDataExtended \<equiv> 65536"
abbreviation (input) LenHeader :: int where "LenHeader \<equiv> 4"
abbreviation (input) LenLCStandard :: int where "LenLCStandard \<equiv> 1"
abbreviation (input) LenLCExtended :: int where "LenLCExtended \<equiv> 3"
abbreviation (input) LenResponseTrailer :: int where "LenResponseTrailer \<equiv> 2"

record Capdu =
  Cla :: byte
  Ins :: byte
  P1 :: byte
  P2 :: byte
  Data :: "byte list"
  Ne :: int

text \<open>The response's data field is \<open>RData\<close>: a record field name is global in HOL, and
  \<open>Data\<close> is the command's.\<close>

record Rapdu =
  RData :: "byte list"
  SW1 :: byte
  SW2 :: byte

text \<open>The errors the parsers return as values (\<open>errors.Errorf\<close>), each with the number
  its message reports.\<close>

datatype error = InvalidLength int | InvalidLc int

section \<open>Go's slice operations\<close>

text \<open>
  Indexing and slicing are checked at run time in Go; a failed check is a panic. Each
  operation returns \<open>None\<close> for the panic, and a function using them has the result
  type \<open>'a option\<close>: \<open>None\<close> when the call panics, \<open>Some\<close> of what it returns otherwise.
\<close>

abbreviation len :: "'a list \<Rightarrow> int" where
  "len xs \<equiv> int (length xs)"

text \<open>\<open>c[i]\<close>\<close>

definition index :: "'a list \<Rightarrow> int \<Rightarrow> 'a option" where
  "index c i = (if 0 \<le> i \<and> i < len c then Some (c ! nat i) else None)"

text \<open>\<open>c[lo:hi]\<close>, in range when \<open>0 \<le> lo \<le> hi \<le> cap(c)\<close>\<close>

definition slice :: "'a list \<Rightarrow> int \<Rightarrow> int \<Rightarrow> 'a list option" where
  "slice c lo hi =
     (if 0 \<le> lo \<and> lo \<le> hi \<and> hi \<le> len c
      then Some (take (nat (hi - lo)) (drop (nat lo) c)) else None)"

text \<open>\<open>c[lo:]\<close>\<close>

definition slice_from :: "'a list \<Rightarrow> int \<Rightarrow> 'a list option" where
  "slice_from c lo = slice c lo (len c)"

text \<open>\<open>c[:hi]\<close>\<close>

definition slice_to :: "'a list \<Rightarrow> int \<Rightarrow> 'a list option" where
  "slice_to c hi = slice c 0 hi"

text \<open>\<open>binary.BigEndian.Uint16(b)\<close>: \<open>_ = b[1]\<close> is its bounds check, then
  \<open>uint16(b[1]) | uint16(b[0])<<8\<close>.\<close>

definition Uint16 :: "byte list \<Rightarrow> 16 word option" where
  "Uint16 b = do {
     b1 \<leftarrow> index b 1;
     b0 \<leftarrow> index b 0;
     Some ((ucast b1 :: 16 word) OR push_bit 8 (ucast b0 :: 16 word))
   }"

section \<open>Parsing a command APDU\<close>

text \<open>\<open>Capdu{Cla: c[OffsetCla], Ins: c[OffsetIns], P1: c[OffsetP1], P2: c[OffsetP2],
  Data: data, Ne: ne}, nil\<close>: the value every successful return of the parser builds.\<close>

definition capdu_of :: "byte list \<Rightarrow> byte list \<Rightarrow> int \<Rightarrow> (error + Capdu) option" where
  "capdu_of c data ne = do {
     cla \<leftarrow> index c OffsetCla;
     ins \<leftarrow> index c OffsetIns;
     p1 \<leftarrow> index c OffsetP1;
     p2 \<leftarrow> index c OffsetP2;
     Some (Inr \<lparr>Cla = cla, Ins = ins, P1 = p1, P2 = p2, Data = data, Ne = ne\<rparr>)
   }"

definition parseCapduStandardLength :: "byte list \<Rightarrow> (error + Capdu) option" where
  "parseCapduStandardLength c =
     (if len c = LenHeader + LenLCStandard then do {
        b \<leftarrow> index c OffsetLcStandard;
        let ne = uint b in
        if ne = 0 then capdu_of c [] MaxLenResponseDataStandard
        else capdu_of c [] ne
      }
      else
        let bodyLen = len c - LenHeader in do {
        b \<leftarrow> index c OffsetLcStandard;
        let lc = uint b in
        if lc \<noteq> bodyLen - LenLCStandard \<and> lc \<noteq> bodyLen - LenLCStandard - 1
        then Some (Inl (InvalidLc lc))
        else do {
          data \<leftarrow> slice c OffsetCdataStandard (OffsetCdataStandard + lc);
          if len c = LenHeader + LenLCStandard + len data then capdu_of c data 0
          else do {
            l \<leftarrow> index c (len c - 1);
            let le = uint l in
            capdu_of c data (if le = 0 then MaxLenResponseDataStandard else le)
          }
        }
      })"

definition parseCapduExtendedLength :: "byte list \<Rightarrow> (error + Capdu) option" where
  "parseCapduExtendedLength c =
     (if len c = LenHeader + LenLCExtended then do {
        s \<leftarrow> slice_from c OffsetLcExtended;
        w \<leftarrow> Uint16 s;
        let le = uint w in
        capdu_of c [] (if le = 0 then MaxLenResponseDataExtended else le)
      }
      else
        let bodyLen = len c - LenHeader in do {
        s \<leftarrow> slice c OffsetLcExtended (OffsetLcExtended + 2);
        w \<leftarrow> Uint16 s;
        let lc = uint w in
        if lc \<noteq> bodyLen - LenLCExtended \<and> lc \<noteq> bodyLen - LenLCExtended - 2
        then Some (Inl (InvalidLc lc))
        else do {
          data \<leftarrow> slice c OffsetCdataExtended (OffsetCdataExtended + lc);
          if len c = LenHeader + LenLCExtended + len data then capdu_of c data 0
          else do {
            t \<leftarrow> slice_from c (len c - 2);
            w' \<leftarrow> Uint16 t;
            let le = uint w' in
            capdu_of c data (if le = 0 then MaxLenResponseDataExtended else le)
          }
        }
      })"

definition ParseCapdu :: "byte list \<Rightarrow> (error + Capdu) option" where
  "ParseCapdu c =
     (if len c < LenHeader \<or> len c > 65544 then Some (Inl (InvalidLength (len c)))
      else if len c = LenHeader then capdu_of c [] 0
      else do {
        b \<leftarrow> index c OffsetLcStandard;
        if b = 0 then do {
          rest \<leftarrow> slice_from c OffsetLcExtended;
          if len rest > 0 then parseCapduExtendedLength c
          else parseCapduStandardLength c
        }
        else parseCapduStandardLength c
      })"

section \<open>Parsing a response APDU\<close>

text \<open>The three locals start at their zero values; each of the two \<open>if\<close> statements
  assigns them when its condition holds.\<close>

definition ParseRapdu :: "byte list \<Rightarrow> (error + Rapdu) option" where
  "ParseRapdu b =
     (if len b < LenResponseTrailer \<or> len b > 65538 then Some (Inl (InvalidLength (len b)))
      else do {
        (data1, sw1a, sw2a) \<leftarrow>
          (if len b = LenResponseTrailer then do {
             x \<leftarrow> index b 0;
             y \<leftarrow> index b 1;
             Some ([], x, y)
           } else Some ([], 0, 0));
        (data2, sw1b, sw2b) \<leftarrow>
          (if len b > LenResponseTrailer then do {
             d \<leftarrow> slice_to b (len b - LenResponseTrailer);
             x \<leftarrow> index b (len b - 2);
             y \<leftarrow> index b (len b - 1);
             Some (d, x, y)
           } else Some (data1, sw1a, sw2a));
        Some (Inr \<lparr>RData = data2, SW1 = sw1b, SW2 = sw2b\<rparr>)
      })"

section \<open>Serialising\<close>

definition determineCase :: "Capdu \<Rightarrow> int" where
  "determineCase c =
     (if len (Data c) = 0 \<and> Ne c = 0 then 1
      else if len (Data c) = 0 \<and> Ne c > 0 then 2
      else if len (Data c) \<noteq> 0 \<and> Ne c = 0 then 3
      else 4)"

text \<open>\<open>(byte)((n >> 8) & 0xFF)\<close> and \<open>(byte)(n & 0xFF)\<close>; \<open>byte(n)\<close> keeps the low
  eight bits.\<close>

definition hi_byte :: "int \<Rightarrow> byte" where
  "hi_byte n = word_of_int (drop_bit 8 n AND 0xFF)"

definition lo_byte :: "int \<Rightarrow> byte" where
  "lo_byte n = word_of_int (n AND 0xFF)"

definition to_byte :: "int \<Rightarrow> byte" where
  "to_byte n = word_of_int n"

definition Capdu_Bytes :: "Capdu \<Rightarrow> byte list option" where
  "Capdu_Bytes c =
     (let ca = determineCase c;
          header = [Cla c, Ins c, P1 c, P2 c];
          dataLen = len (Data c)
      in
      if ca = 1 then Some header
      else if ca = 2 then
        (if Ne c > MaxLenResponseDataStandard then
           let ne = (if Ne c > MaxLenResponseDataExtended then MaxLenResponseDataExtended
                     else Ne c);
               le = (if ne = MaxLenResponseDataExtended then [0, 0, 0]
                     else [0, hi_byte (Ne c), lo_byte (Ne c)])
           in Some (header @ le)
         else if Ne c = MaxLenResponseDataStandard then Some (header @ [0])
         else Some (header @ [to_byte (Ne c)]))
      else if ca = 3 then
        (if len (Data c) > MaxLenCommandDataStandard then
           let dataLen' = (if dataLen > MaxLenCommandDataExtended
                           then MaxLenCommandDataExtended else dataLen);
               lc = [0, hi_byte dataLen', lo_byte dataLen']
           in do {
             d \<leftarrow> slice_to (Data c) dataLen';
             Some (header @ lc @ d)
           }
         else Some (header @ [to_byte dataLen] @ Data c))
      else if Ne c > MaxLenResponseDataStandard \<or> len (Data c) > MaxLenCommandDataStandard then
        let dataLen' = (if dataLen > MaxLenCommandDataExtended
                        then MaxLenCommandDataExtended else dataLen);
            ne = (if Ne c > MaxLenResponseDataExtended then MaxLenResponseDataExtended
                  else Ne c);
            lc = [0, hi_byte dataLen', lo_byte dataLen'];
            le = (if ne = MaxLenResponseDataExtended then [0, 0]
                  else [hi_byte (Ne c), lo_byte (Ne c)])
        in do {
          d \<leftarrow> slice_to (Data c) dataLen';
          Some (header @ lc @ d @ le)
        }
      else Some (header @ [to_byte dataLen] @ Data c @ [to_byte (Ne c)]))"

definition IsExtendedLength :: "Capdu \<Rightarrow> bool" where
  "IsExtendedLength c \<longleftrightarrow>
     Ne c > MaxLenResponseDataStandard \<or> len (Data c) > MaxLenCommandDataStandard"

definition Lc :: "Capdu \<Rightarrow> byte list" where
  "Lc c =
     (if len (Data c) = 0 then []
      else if len (Data c) > MaxLenCommandDataStandard
      then [0, hi_byte (len (Data c)), lo_byte (len (Data c))]
      else [to_byte (len (Data c))])"

text \<open>\<open>cap(result)\<close> is the capacity \<open>make\<close> was given: 65536 or \<open>len(r.Data)\<close>.\<close>

definition Rapdu_Bytes :: "Rapdu \<Rightarrow> byte list option" where
  "Rapdu_Bytes r =
     (let cap = (if len (RData r) > MaxLenResponseDataExtended then 65536 else len (RData r))
      in do {
        d \<leftarrow> slice_to (RData r) cap;
        Some (d @ [SW1 r, SW2 r])
      })"

section \<open>Status classification\<close>

definition IsSuccess :: "Rapdu \<Rightarrow> bool" where
  "IsSuccess r \<longleftrightarrow> SW1 r = 0x61 \<or> SW1 r = 0x90 \<and> SW2 r = 0x00"

definition IsWarning :: "Rapdu \<Rightarrow> bool" where
  "IsWarning r \<longleftrightarrow> SW1 r = 0x62 \<or> SW1 r = 0x63"

definition IsError :: "Rapdu \<Rightarrow> bool" where
  "IsError r \<longleftrightarrow> (SW1 r = 0x64 \<or> SW1 r = 0x65) \<or> (SW1 r \<ge> 0x67 \<and> SW1 r \<le> 0x6F)"

section \<open>Slices, words and bytes\<close>

lemma index_Cons: "index (x # xs) i = (if i = 0 then Some x else index xs (i - 1))"
  by (auto simp: index_def nat_diff_distrib' nth_Cons split: nat.splits)

lemma capdu_of_eq:
  "4 \<le> length c \<Longrightarrow>
   capdu_of c d n =
     Some (Inr \<lparr>Cla = c ! 0, Ins = c ! 1, P1 = c ! 2, P2 = c ! 3, Data = d, Ne = n\<rparr>)"
  by (auto simp: capdu_of_def index_def)

lemma Uint16_Some: "2 \<le> length b \<Longrightarrow> \<exists>w. Uint16 b = Some w"
  by (auto simp: Uint16_def index_def)

lemma drop7: "drop (7 + length d) (a1 # a2 # a3 # a4 # a5 # a6 # a7 # d @ r) = r"
  by (simp add: numeral_eq_Suc)

lemma uint_to_byte: "0 \<le> n \<Longrightarrow> n < 256 \<Longrightarrow> uint (to_byte n) = n"
  by (simp add: to_byte_def uint_word_of_int)

lemma to_byte_256: "to_byte 256 = 0"
  by (simp add: to_byte_def)

text \<open>The two bytes the serialiser writes for a length are the big-endian halves of its
  low sixteen bits.\<close>

lemma be16: "(ucast (lo_byte n) :: 16 word) OR push_bit 8 (ucast (hi_byte n)) = word_of_int n"
proof -
  have m: "(255::int) = mask 8" by (simp add: mask_eq_exp_minus_1)
  show ?thesis
    unfolding lo_byte_def hi_byte_def m take_bit_eq_mask [symmetric]
    by (rule bit_word_eqI) (auto simp: bit_simps)
qed

lemma uint_be16: "0 \<le> n \<Longrightarrow> n < 65536 \<Longrightarrow>
   uint ((ucast (lo_byte n) :: 16 word) OR push_bit 8 (ucast (hi_byte n))) = n"
  by (simp add: be16 uint_word_of_int)

lemma ne_std:
  "0 < n \<Longrightarrow> n < 256 \<Longrightarrow> (if to_byte n = 0 then 256 else uint (to_byte n)) = n"
  using uint_to_byte [of n] by (auto simp: uint_0_iff [symmetric] simp del: uint_0_iff)

lemma ne_ext: "0 < n \<Longrightarrow> n < 65536 \<Longrightarrow>
   (if (ucast (lo_byte n) :: 16 word) OR push_bit 8 (ucast (hi_byte n)) = 0 then 65536
    else uint ((ucast (lo_byte n) :: 16 word) OR push_bit 8 (ucast (hi_byte n)))) = n"
  using uint_be16 [of n] by (auto simp: uint_0_iff [symmetric] simp del: uint_0_iff)

lemma to_byte_len_nonzero:
  "d \<noteq> [] \<Longrightarrow> length d \<le> 255 \<Longrightarrow> to_byte (len d) \<noteq> 0"
proof
  assume a: "d \<noteq> []" "length d \<le> 255" "to_byte (len d) = 0"
  then have "uint (to_byte (len d)) = 0" by simp
  moreover from a have "uint (to_byte (len d)) = len d" by (intro uint_to_byte) auto
  ultimately show False using a by simp
qed

section \<open>The parser on each wire layout\<close>

lemmas parse_defs = ParseCapdu_def parseCapduStandardLength_def parseCapduExtendedLength_def
  index_Cons slice_from_def slice_def capdu_of_def Uint16_def

lemma parse_case1:
  "ParseCapdu [cla, ins, p1, p2] =
     Some (Inr \<lparr>Cla = cla, Ins = ins, P1 = p1, P2 = p2, Data = [], Ne = 0\<rparr>)"
  by (simp add: parse_defs)

lemma parse_case2_std:
  "ParseCapdu [cla, ins, p1, p2, b] =
     Some (Inr \<lparr>Cla = cla, Ins = ins, P1 = p1, P2 = p2, Data = [],
                 Ne = (if b = 0 then 256 else uint b)\<rparr>)"
  by (simp add: parse_defs uint_0_iff)

lemma parse_case2_ext:
  "ParseCapdu [cla, ins, p1, p2, 0, h, l] =
     Some (Inr \<lparr>Cla = cla, Ins = ins, P1 = p1, P2 = p2, Data = [],
                 Ne = (if (ucast l :: 16 word) OR push_bit 8 (ucast h) = 0 then 65536
                       else uint ((ucast l :: 16 word) OR push_bit 8 (ucast h)))\<rparr>)"
  by (simp add: parse_defs uint_0_iff)

lemma parse_case3_std:
  assumes "d \<noteq> []" "length d \<le> 255"
  shows "ParseCapdu (cla # ins # p1 # p2 # to_byte (len d) # d) =
     Some (Inr \<lparr>Cla = cla, Ins = ins, P1 = p1, P2 = p2, Data = d, Ne = 0\<rparr>)"
  using assms to_byte_len_nonzero [OF assms]
  by (simp add: parse_defs uint_to_byte)

lemma parse_case4_std:
  assumes "d \<noteq> []" "length d \<le> 255"
  shows "ParseCapdu (cla # ins # p1 # p2 # to_byte (len d) # d @ [e]) =
     Some (Inr \<lparr>Cla = cla, Ins = ins, P1 = p1, P2 = p2, Data = d,
                 Ne = (if e = 0 then 256 else uint e)\<rparr>)"
  using assms to_byte_len_nonzero [OF assms]
  by (simp add: parse_defs uint_to_byte index_def nth_append uint_0_iff Let_def nat_add_distrib)

lemma parse_case3_ext:
  assumes "d \<noteq> []" "length d \<le> 65535"
  shows "ParseCapdu (cla # ins # p1 # p2 # 0 # hi_byte (len d) # lo_byte (len d) # d) =
     Some (Inr \<lparr>Cla = cla, Ins = ins, P1 = p1, P2 = p2, Data = d, Ne = 0\<rparr>)"
  using assms
  by (simp add: parse_defs uint_be16)

lemma parse_case4_ext:
  assumes "d \<noteq> []" "length d \<le> 65535"
  shows "ParseCapdu (cla # ins # p1 # p2 # 0 # hi_byte (len d) # lo_byte (len d) # d @ [h, l]) =
     Some (Inr \<lparr>Cla = cla, Ins = ins, P1 = p1, P2 = p2, Data = d,
                 Ne = (if (ucast l :: 16 word) OR push_bit 8 (ucast h) = 0 then 65536
                       else uint ((ucast l :: 16 word) OR push_bit 8 (ucast h)))\<rparr>)"
  using assms
  by (simp add: parse_defs uint_be16 uint_0_iff Let_def nat_add_distrib drop7)

section \<open>The parser on an arbitrary input\<close>

lemma dispatch:
  assumes "4 < length c" "length c \<le> 65544"
  shows "ParseCapdu c =
    (if c ! 4 = 0 \<and> 5 < length c then parseCapduExtendedLength c
     else parseCapduStandardLength c)"
  using assms by (simp add: ParseCapdu_def index_def slice_from_def slice_def)

lemma std_body:
  assumes "6 \<le> length c"
  shows "parseCapduStandardLength c =
    (if uint (c ! 4) \<noteq> len c - 5 \<and> uint (c ! 4) \<noteq> len c - 6
     then Some (Inl (InvalidLc (uint (c ! 4))))
     else Some (Inr \<lparr>Cla = c ! 0, Ins = c ! 1, P1 = c ! 2, P2 = c ! 3,
            Data = take (unat (c ! 4)) (drop 5 c),
            Ne = (if uint (c ! 4) = len c - 5 then 0
                  else if c ! (length c - 1) = 0 then 256 else uint (c ! (length c - 1)))\<rparr>))"
  using assms
  apply (simp add: parseCapduStandardLength_def index_def slice_def Let_def capdu_of_eq)
  apply (auto simp: nat_diff_distrib' min_def unat_eq_nat_uint uint_0_iff)
  done

lemma std_no_panic:
  assumes "5 \<le> length c"
  shows "parseCapduStandardLength c \<noteq> None"
proof (cases "length c = 5")
  case True
  then show ?thesis
    by (simp add: parseCapduStandardLength_def index_def capdu_of_eq Let_def)
next
  case False
  with assms have "6 \<le> length c" by simp
  then show ?thesis by (simp add: std_body)
qed

lemma ext_len6_panics:
  assumes "length c = 6"
  shows "parseCapduExtendedLength c = None"
  using assms by (simp add: parseCapduExtendedLength_def slice_def)

lemma ext_no_panic:
  assumes "7 \<le> length c"
  shows "parseCapduExtendedLength c \<noteq> None"
proof (cases "length c = 7")
  case True
  then have "slice_from c 5 = Some (drop 5 c)"
    by (simp add: slice_from_def slice_def)
  moreover from True obtain w where "Uint16 (drop 5 c) = Some w"
    using Uint16_Some [of "drop 5 c"] by auto
  ultimately show ?thesis using True
    by (simp add: parseCapduExtendedLength_def capdu_of_eq Let_def)
next
  case False
  with assms have l: "8 \<le> length c" by simp
  then have s: "slice c 5 7 = Some (take 2 (drop 5 c))"
    by (simp add: slice_def)
  from l obtain w where w: "Uint16 (take 2 (drop 5 c)) = Some w"
    using Uint16_Some [of "take 2 (drop 5 c)"] by auto
  from l have t: "slice_from c (len c - 2) = Some (drop (length c - 2) c)"
    by (simp add: slice_from_def slice_def nat_diff_distrib')
  from l obtain w' where w': "Uint16 (drop (length c - 2) c) = Some w'"
    using Uint16_Some [of "drop (length c - 2) c"] by auto
  from l have d: "uint w = len c - 7 \<or> uint w = len c - 9 \<Longrightarrow>
     slice c 7 (7 + uint w) = Some (take (nat (uint w)) (drop 7 c))"
    by (auto simp: slice_def)
  show ?thesis
  proof (cases "uint w = len c - 7 \<or> uint w = len c - 9")
    case True
    with l False d [OF True] show ?thesis
      by (simp add: parseCapduExtendedLength_def s w t w' capdu_of_eq Let_def)
  next
    case F: False
    with l False show ?thesis
      by (simp add: parseCapduExtendedLength_def s w)
  qed
qed

text \<open>The inputs on which \<open>ParseCapdu\<close> panics are exactly the six-byte inputs with a
  zero byte at position 4: \<open>parseCapduExtendedLength\<close> then slices \<open>c[5:7]\<close>.\<close>

lemma ParseCapdu_None_iff: "ParseCapdu c = None \<longleftrightarrow> length c = 6 \<and> c ! 4 = 0"
proof (cases "4 < length c \<and> length c \<le> 65544")
  case True
  then show ?thesis
    using dispatch [of c] std_no_panic [of c] ext_no_panic [of c] ext_len6_panics [of c]
    by (cases "length c = 6") auto
next
  case False
  then show ?thesis
    by (auto simp: ParseCapdu_def capdu_of_eq)
qed

section \<open>Serialising, then parsing\<close>

lemmas bytes_defs = Capdu_Bytes_def determineCase_def Let_def slice_to_def slice_def

lemma Bytes_then_Parse:
  assumes ne: "0 \<le> Ne c" "Ne c \<le> 65536" and dl: "length (Data c) \<le> 65535"
  shows "\<exists>bs. Capdu_Bytes c = Some bs \<and> ParseCapdu bs = Some (Inr c)"
proof -
  consider (c1) "Data c = []" "Ne c = 0"
    | (c2s) "Data c = []" "0 < Ne c" "Ne c < 256"
    | (c2m) "Data c = []" "Ne c = 256"
    | (c2e) "Data c = []" "256 < Ne c" "Ne c < 65536"
    | (c2x) "Data c = []" "Ne c = 65536"
    | (c3s) "Data c \<noteq> []" "length (Data c) \<le> 255" "Ne c = 0"
    | (c3e) "Data c \<noteq> []" "255 < length (Data c)" "Ne c = 0"
    | (c4s) "Data c \<noteq> []" "length (Data c) \<le> 255" "0 < Ne c" "Ne c < 256"
    | (c4m) "Data c \<noteq> []" "length (Data c) \<le> 255" "Ne c = 256"
    | (c4e) "Data c \<noteq> []" "255 < length (Data c) \<or> 256 < Ne c" "0 < Ne c" "Ne c < 65536"
    | (c4x) "Data c \<noteq> []" "Ne c = 65536"
    using ne by (cases "Data c = []") (auto, linarith+)
  then show ?thesis
  proof cases
    case c1
    then have "Capdu_Bytes c = Some [Cla c, Ins c, P1 c, P2 c]"
      by (simp add: bytes_defs)
    with c1 show ?thesis by (simp add: parse_case1)
  next
    case c2s
    then have "Capdu_Bytes c = Some [Cla c, Ins c, P1 c, P2 c, to_byte (Ne c)]"
      by (simp add: bytes_defs)
    with c2s show ?thesis by (simp add: parse_case2_std ne_std)
  next
    case c2m
    then have "Capdu_Bytes c = Some [Cla c, Ins c, P1 c, P2 c, 0]"
      by (simp add: bytes_defs)
    with c2m show ?thesis by (simp add: parse_case2_std)
  next
    case c2e
    then have "Capdu_Bytes c =
        Some [Cla c, Ins c, P1 c, P2 c, 0, hi_byte (Ne c), lo_byte (Ne c)]"
      by (simp add: bytes_defs)
    with c2e show ?thesis by (simp add: parse_case2_ext ne_ext)
  next
    case c2x
    then have "Capdu_Bytes c = Some [Cla c, Ins c, P1 c, P2 c, 0, 0, 0]"
      by (simp add: bytes_defs)
    with c2x show ?thesis by (simp add: parse_case2_ext)
  next
    case c3s
    then have "Capdu_Bytes c =
        Some (Cla c # Ins c # P1 c # P2 c # to_byte (len (Data c)) # Data c)"
      by (simp add: bytes_defs)
    with c3s show ?thesis by (simp add: parse_case3_std)
  next
    case c3e
    with dl have "Capdu_Bytes c = Some (Cla c # Ins c # P1 c # P2 c # 0 #
        hi_byte (len (Data c)) # lo_byte (len (Data c)) # Data c)"
      by (simp add: bytes_defs)
    with c3e dl show ?thesis by (simp add: parse_case3_ext)
  next
    case c4s
    then have "Capdu_Bytes c = Some (Cla c # Ins c # P1 c # P2 c # to_byte (len (Data c)) #
        Data c @ [to_byte (Ne c)])"
      by (simp add: bytes_defs)
    with c4s show ?thesis by (simp add: parse_case4_std ne_std)
  next
    case c4m
    then have "Capdu_Bytes c = Some (Cla c # Ins c # P1 c # P2 c # to_byte (len (Data c)) #
        Data c @ [0])"
      by (simp add: bytes_defs to_byte_256)
    with c4m show ?thesis by (simp add: parse_case4_std)
  next
    case c4e
    with dl have "Capdu_Bytes c = Some (Cla c # Ins c # P1 c # P2 c # 0 #
        hi_byte (len (Data c)) # lo_byte (len (Data c)) #
        Data c @ [hi_byte (Ne c), lo_byte (Ne c)])"
      by (auto simp: bytes_defs)
    with c4e dl show ?thesis by (simp add: parse_case4_ext ne_ext)
  next
    case c4x
    with dl have "Capdu_Bytes c = Some (Cla c # Ins c # P1 c # P2 c # 0 #
        hi_byte (len (Data c)) # lo_byte (len (Data c)) # Data c @ [0, 0])"
      by (simp add: bytes_defs)
    with c4x dl show ?thesis by (simp add: parse_case4_ext)
  qed
qed

lemma Bytes_clamped:
  "Capdu_Bytes c =
   Capdu_Bytes (c\<lparr>Data := take 65535 (Data c), Ne := min (Ne c) 65536\<rparr>)"
  apply (simp add: Capdu_Bytes_def determineCase_def Let_def slice_to_def slice_def min_def)
  apply auto
  done

section \<open>The claims\<close>

subsection \<open>C1: serialising and parsing a command round-trips\<close>

text \<open>
  Claim C1. For every command APDU \<open>c\<close> with \<open>0 \<le> Ne \<le> 65536\<close> and at most 65535 data
  bytes, \<open>Capdu.Bytes\<close> returns a byte sequence on which \<open>ParseCapdu\<close> succeeds and
  returns \<open>c\<close> itself: the same \<open>Cla\<close>, \<open>Ins\<close>, \<open>P1\<close>, \<open>P2\<close>, \<open>Data\<close> and \<open>Ne\<close>.
  (\<open>Data\<close> is compared as a byte sequence: a command built with an empty non-nil slice
  comes back with the nil slice.)
\<close>

theorem Capdu_roundtrip:
  assumes "0 \<le> Ne c" and "Ne c \<le> 65536" and "length (Data c) \<le> 65535"
  shows "\<exists>bs. Capdu_Bytes c = Some bs \<and> ParseCapdu bs = Some (Inr c)"
  using assms by (rule Bytes_then_Parse)

theorem Capdu_roundtrip_witness:
  "0 \<le> Ne \<lparr>Cla = 0x00, Ins = 0xA4, P1 = 0x04, P2 = 0x00, Data = [1, 2, 3], Ne = 257\<rparr> \<and>
   Ne \<lparr>Cla = 0x00, Ins = 0xA4, P1 = 0x04, P2 = 0x00, Data = [1, 2, 3], Ne = 257\<rparr> \<le> 65536 \<and>
   length (Data \<lparr>Cla = 0x00, Ins = 0xA4, P1 = 0x04, P2 = 0x00, Data = [1, 2, 3], Ne = 257\<rparr>)
     \<le> 65535 \<and>
   (\<exists>bs. Capdu_Bytes \<lparr>Cla = 0x00, Ins = 0xA4, P1 = 0x04, P2 = 0x00, Data = [1, 2, 3], Ne = 257\<rparr>
            = Some bs \<and>
         ParseCapdu bs =
           Some (Inr \<lparr>Cla = 0x00, Ins = 0xA4, P1 = 0x04, P2 = 0x00, Data = [1, 2, 3], Ne = 257\<rparr>))"
  using Capdu_roundtrip
    [of "\<lparr>Cla = 0x00, Ins = 0xA4, P1 = 0x04, P2 = 0x00, Data = [1, 2, 3], Ne = 257\<rparr>"]
  by simp

subsection \<open>C2: the parser panics on a six-byte input with a zero byte after the header\<close>

text \<open>
  Claim C2 says that \<open>ParseCapdu\<close> returns a command or an error value on every input and
  never panics, in particular on inputs of length 6 whose byte at position 4 is zero.
  The code does not do that: such an input has one byte after the zero byte, so it is
  sent to \<open>parseCapduExtendedLength\<close>; its length is not 7, so the Lc is read from
  \<open>c[5:7]\<close>, which is out of range for a slice of length and capacity six. The call panics on
  \<open>[0x00, 0xA4, 0x04, 0x00, 0x00, 0x01]\<close>, and the inputs on which it panics are exactly
  the six-byte inputs with a zero byte at position 4.
\<close>

theorem ParseCapdu_panics_on_six_bytes:
  "ParseCapdu [0x00, 0xA4, 0x04, 0x00, 0x00, 0x01] = None \<and>
   (ParseCapdu c = None \<longleftrightarrow> length c = 6 \<and> c ! 4 = 0)"
  by (simp add: ParseCapdu_None_iff)

subsection \<open>C3: the choice between standard and extended parsing\<close>

text \<open>
  Claim C3. For every input of more than 4 and at most 65544 bytes, \<open>ParseCapdu\<close> returns
  what \<open>parseCapduExtendedLength\<close> returns exactly when the byte at position 4 is zero
  and at least one more byte follows it, and what \<open>parseCapduStandardLength\<close> returns in
  every other case.
\<close>

theorem ParseCapdu_branch:
  assumes "4 < length c" and "length c \<le> 65544"
  shows "ParseCapdu c =
    (if c ! 4 = 0 \<and> 5 < length c then parseCapduExtendedLength c
     else parseCapduStandardLength c)"
  using assms by (simp add: ParseCapdu_def index_def slice_from_def slice_def)

theorem ParseCapdu_branch_witness:
  "4 < length [0x00, 0xA4, 0x04, 0x00, 0x00, 0x01, 0x01 :: byte] \<and>
   length [0x00, 0xA4, 0x04, 0x00, 0x00, 0x01, 0x01 :: byte] \<le> 65544 \<and>
   ParseCapdu [0x00, 0xA4, 0x04, 0x00, 0x00, 0x01, 0x01] =
     parseCapduExtendedLength [0x00, 0xA4, 0x04, 0x00, 0x00, 0x01, 0x01] \<and>
   4 < length [0x00, 0xA4, 0x04, 0x00, 0x00 :: byte] \<and>
   ParseCapdu [0x00, 0xA4, 0x04, 0x00, 0x00] =
     parseCapduStandardLength [0x00, 0xA4, 0x04, 0x00, 0x00]"
  using ParseCapdu_branch [of "[0x00, 0xA4, 0x04, 0x00, 0x00, 0x01, 0x01]"]
    ParseCapdu_branch [of "[0x00, 0xA4, 0x04, 0x00, 0x00]"]
  by simp

subsection \<open>C4: the Lc check of standard-length parsing\<close>

text \<open>
  Claim C4. For every input that is parsed as standard length and whose body (the bytes
  after the 4-byte header) has at least 2 bytes, \<open>ParseCapdu\<close> fails with an InvalidLc
  error if and only if the first body byte Lc is neither \<open>bodyLen - 1\<close> nor
  \<open>bodyLen - 2\<close>; otherwise it succeeds and \<open>Data\<close> is the Lc bytes that follow the Lc
  byte. In particular \<open>[0x00, 0xA4, 0x04, 0x01, 0x05, 0x01, 0x02]\<close> fails with InvalidLc.
\<close>

theorem standard_Lc_check:
  assumes "6 \<le> length c" and "length c \<le> 65544" and "c ! 4 \<noteq> 0"
  shows "((\<exists>v. ParseCapdu c = Some (Inl (InvalidLc v))) \<longleftrightarrow>
            uint (c ! 4) \<noteq> (len c - 4) - 1 \<and> uint (c ! 4) \<noteq> (len c - 4) - 2) \<and>
         (uint (c ! 4) = (len c - 4) - 1 \<or> uint (c ! 4) = (len c - 4) - 2 \<longrightarrow>
            (\<exists>r. ParseCapdu c = Some (Inr r) \<and> Data r = take (unat (c ! 4)) (drop 5 c))) \<and>
         ParseCapdu [0x00, 0xA4, 0x04, 0x01, 0x05, 0x01, 0x02] = Some (Inl (InvalidLc 5))"
proof -
  from assms have "ParseCapdu c = parseCapduStandardLength c"
    by (simp add: dispatch)
  with assms(1) have "ParseCapdu c =
    (if uint (c ! 4) \<noteq> len c - 5 \<and> uint (c ! 4) \<noteq> len c - 6
     then Some (Inl (InvalidLc (uint (c ! 4))))
     else Some (Inr \<lparr>Cla = c ! 0, Ins = c ! 1, P1 = c ! 2, P2 = c ! 3,
            Data = take (unat (c ! 4)) (drop 5 c),
            Ne = (if uint (c ! 4) = len c - 5 then 0
                  else if c ! (length c - 1) = 0 then 256 else uint (c ! (length c - 1)))\<rparr>))"
    by (simp only: std_body)
  moreover have "ParseCapdu [0x00, 0xA4, 0x04, 0x01, 0x05, 0x01, 0x02] = Some (Inl (InvalidLc 5))"
    by (simp add: parse_defs)
  ultimately show ?thesis by auto
qed

theorem standard_Lc_check_witness:
  "6 \<le> length [0x00, 0xA4, 0x04, 0x00, 0x02, 0x07, 0x08 :: byte] \<and>
   length [0x00, 0xA4, 0x04, 0x00, 0x02, 0x07, 0x08 :: byte] \<le> 65544 \<and>
   [0x00, 0xA4, 0x04, 0x00, 0x02, 0x07, 0x08 :: byte] ! 4 \<noteq> 0 \<and>
   (\<exists>r. ParseCapdu [0x00, 0xA4, 0x04, 0x00, 0x02, 0x07, 0x08] = Some (Inr r) \<and>
        Data r = [0x07, 0x08])"
  using standard_Lc_check [of "[0x00, 0xA4, 0x04, 0x00, 0x02, 0x07, 0x08]"]
  by simp

subsection \<open>C5: zero means maximum in the Le encoding\<close>

text \<open>
  Claim C5. A command with no data and \<open>Ne = 256\<close> is serialised as the header and the
  single Le byte \<open>0x00\<close>, and a 5-byte input whose Le byte is \<open>0x00\<close> parses to
  \<open>Ne = 256\<close>. A command with no data and \<open>Ne = 65536\<close> is serialised as the header,
  the zero marker and two zero bytes, and that 7-byte input parses to \<open>Ne = 65536\<close>.
\<close>

theorem zero_means_max:
  "Capdu_Bytes \<lparr>Cla = cla, Ins = ins, P1 = p1, P2 = p2, Data = [], Ne = 256\<rparr> =
     Some [cla, ins, p1, p2, 0x00] \<and>
   ParseCapdu [cla, ins, p1, p2, 0x00] =
     Some (Inr \<lparr>Cla = cla, Ins = ins, P1 = p1, P2 = p2, Data = [], Ne = 256\<rparr>) \<and>
   Capdu_Bytes \<lparr>Cla = cla, Ins = ins, P1 = p1, P2 = p2, Data = [], Ne = 65536\<rparr> =
     Some [cla, ins, p1, p2, 0x00, 0x00, 0x00] \<and>
   ParseCapdu [cla, ins, p1, p2, 0x00, 0x00, 0x00] =
     Some (Inr \<lparr>Cla = cla, Ins = ins, P1 = p1, P2 = p2, Data = [], Ne = 65536\<rparr>)"
  by (simp add: Capdu_Bytes_def determineCase_def parse_defs)

subsection \<open>C6: serialising is total and permissive\<close>

text \<open>
  Claim C6. \<open>Capdu.Bytes\<close> returns a byte sequence for every command, whatever the
  length of its data and its \<open>Ne\<close>; the bytes are those of the command with its data cut
  to the first 65535 bytes and its \<open>Ne\<close> clamped to 65536, and for \<open>Ne \<ge> 0\<close> they parse
  back to that command. \<open>Rapdu.Bytes\<close> returns, for every response, its data cut to the
  first 65536 bytes followed by SW1 and SW2.
\<close>

theorem Bytes_permissive_total:
  "(\<exists>bs. Capdu_Bytes c = Some bs \<and>
      Capdu_Bytes (c\<lparr>Data := take 65535 (Data c), Ne := min (Ne c) 65536\<rparr>) = Some bs \<and>
      (0 \<le> Ne c \<longrightarrow>
         ParseCapdu bs = Some (Inr (c\<lparr>Data := take 65535 (Data c), Ne := min (Ne c) 65536\<rparr>)))) \<and>
   Rapdu_Bytes r = Some (take 65536 (RData r) @ [SW1 r, SW2 r])"
proof -
  let ?c' = "c\<lparr>Data := take 65535 (Data c), Ne := min (Ne c) 65536\<rparr>"
  have eq: "Capdu_Bytes c = Capdu_Bytes ?c'" by (rule Bytes_clamped)
  have "\<exists>bs. Capdu_Bytes c = Some bs"
    by (auto simp: bytes_defs)
  then obtain bs where bs: "Capdu_Bytes c = Some bs" by blast
  with eq have bs': "Capdu_Bytes ?c' = Some bs" by simp
  have p: "ParseCapdu bs = Some (Inr ?c')" if "0 \<le> Ne c"
  proof -
    from that have "\<exists>bs'. Capdu_Bytes ?c' = Some bs' \<and> ParseCapdu bs' = Some (Inr ?c')"
      by (intro Bytes_then_Parse) auto
    with bs' show ?thesis by auto
  qed
  have r: "Rapdu_Bytes r = Some (take 65536 (RData r) @ [SW1 r, SW2 r])"
    by (auto simp: Rapdu_Bytes_def slice_to_def slice_def Let_def)
  from bs bs' p have "\<exists>bs. Capdu_Bytes c = Some bs \<and> Capdu_Bytes ?c' = Some bs \<and>
      (0 \<le> Ne c \<longrightarrow> ParseCapdu bs = Some (Inr ?c'))"
    by blast
  with r show ?thesis by (rule conjI [rotated])
qed

theorem Bytes_permissive_total_witness:
  "0 \<le> Ne \<lparr>Cla = 0x00, Ins = 0xA4, P1 = 0x04, P2 = 0x00, Data = [1, 2], Ne = 70000\<rparr> \<and>
   (\<exists>bs. Capdu_Bytes \<lparr>Cla = 0x00, Ins = 0xA4, P1 = 0x04, P2 = 0x00, Data = [1, 2], Ne = 70000\<rparr>
            = Some bs \<and>
         ParseCapdu bs =
           Some (Inr \<lparr>Cla = 0x00, Ins = 0xA4, P1 = 0x04, P2 = 0x00, Data = [1, 2], Ne = 65536\<rparr>)) \<and>
   Rapdu_Bytes \<lparr>RData = [0x01, 0x02], SW1 = 0x90, SW2 = 0x00\<rparr> = Some [0x01, 0x02, 0x90, 0x00]"
  using Bytes_permissive_total
    [of "\<lparr>Cla = 0x00, Ins = 0xA4, P1 = 0x04, P2 = 0x00, Data = [1, 2], Ne = 70000\<rparr>"
        "\<lparr>RData = [0x01, 0x02], SW1 = 0x90, SW2 = 0x00\<rparr>"]
  by auto

subsection \<open>C7: the crossover from standard to extended Lc\<close>

text \<open>
  Claim C7. With \<open>Ne = 0\<close>, a command with 255 data bytes is serialised with the one-byte
  Lc \<open>0xFF\<close> (4 + 1 + 255 bytes in all), and a command with 256 data bytes with the
  three-byte Lc \<open>0x00 0x01 0x00\<close>, which begins with a zero byte (4 + 3 + 256 bytes in
  all). \<open>Capdu.Lc\<close> returns the same Lc bytes.
\<close>

theorem crossover:
  "(Ne c = 0 \<and> length (Data c) = 255 \<longrightarrow>
      (\<exists>bs. Capdu_Bytes c = Some bs \<and> bs = [Cla c, Ins c, P1 c, P2 c] @ [0xFF] @ Data c \<and>
         length bs = 4 + 1 + 255) \<and> Lc c = [0xFF]) \<and>
   (Ne c = 0 \<and> length (Data c) = 256 \<longrightarrow>
      (\<exists>bs. Capdu_Bytes c = Some bs \<and>
         bs = [Cla c, Ins c, P1 c, P2 c] @ [0x00, 0x01, 0x00] @ Data c \<and>
         length bs = 4 + 3 + 256) \<and> Lc c = [0x00, 0x01, 0x00])"
  by (auto simp: Capdu_Bytes_def determineCase_def Lc_def to_byte_def hi_byte_def lo_byte_def
      slice_to_def slice_def)

theorem crossover_witness:
  "Ne \<lparr>Cla = 0x00, Ins = 0xA4, P1 = 0x04, P2 = 0x00, Data = replicate 255 0x11, Ne = 0\<rparr> = 0 \<and>
   length (Data \<lparr>Cla = 0x00, Ins = 0xA4, P1 = 0x04, P2 = 0x00, Data = replicate 255 0x11, Ne = 0\<rparr>)
     = 255 \<and>
   Capdu_Bytes \<lparr>Cla = 0x00, Ins = 0xA4, P1 = 0x04, P2 = 0x00, Data = replicate 255 0x11, Ne = 0\<rparr> =
     Some ([0x00, 0xA4, 0x04, 0x00, 0xFF] @ replicate 255 0x11) \<and>
   Ne \<lparr>Cla = 0x00, Ins = 0xA4, P1 = 0x04, P2 = 0x00, Data = replicate 256 0x11, Ne = 0\<rparr> = 0 \<and>
   length (Data \<lparr>Cla = 0x00, Ins = 0xA4, P1 = 0x04, P2 = 0x00, Data = replicate 256 0x11, Ne = 0\<rparr>)
     = 256 \<and>
   Capdu_Bytes \<lparr>Cla = 0x00, Ins = 0xA4, P1 = 0x04, P2 = 0x00, Data = replicate 256 0x11, Ne = 0\<rparr> =
     Some ([0x00, 0xA4, 0x04, 0x00, 0x00, 0x01, 0x00] @ replicate 256 0x11)"
  using crossover
    [of "\<lparr>Cla = 0x00, Ins = 0xA4, P1 = 0x04, P2 = 0x00, Data = replicate 255 0x11, Ne = 0\<rparr>"]
    crossover
    [of "\<lparr>Cla = 0x00, Ins = 0xA4, P1 = 0x04, P2 = 0x00, Data = replicate 256 0x11, Ne = 0\<rparr>"]
  by simp

subsection \<open>C8: parsing a response\<close>

text \<open>
  Claim C8. \<open>ParseRapdu\<close> fails with an InvalidLength error if and only if the input has
  fewer than 2 or more than 65538 bytes. On exactly 2 bytes it returns a response with no
  data whose SW1 and SW2 are the two bytes; on more than 2 bytes its data is all bytes
  but the last two and SW1, SW2 are the last two bytes.
\<close>

theorem ParseRapdu_spec:
  "((\<exists>n. ParseRapdu b = Some (Inl (InvalidLength n))) \<longleftrightarrow> length b < 2 \<or> 65538 < length b) \<and>
   (length b = 2 \<longrightarrow> ParseRapdu b = Some (Inr \<lparr>RData = [], SW1 = b ! 0, SW2 = b ! 1\<rparr>)) \<and>
   (2 < length b \<and> length b \<le> 65538 \<longrightarrow>
      (\<exists>r. ParseRapdu b = Some (Inr r) \<and> RData r = butlast (butlast b) \<and>
           [SW1 r, SW2 r] = drop (length b - 2) b \<and> b = RData r @ [SW1 r, SW2 r]))"
proof -
  have "take (length b - 2) b @ [b ! (length b - 2), b ! (length b - 1)] = b"
    if "2 < length b"
  proof -
    from that have "drop (length b - 2) b = [b ! (length b - 2), b ! (length b - 1)]"
      by (auto simp: list_eq_iff_nth_eq nth_Cons split: nat.splits)
    then show ?thesis by (metis append_take_drop_id)
  qed
  moreover have "butlast (butlast b) = take (length b - 2) b"
    by (simp add: butlast_conv_take numeral_2_eq_2)
  moreover have "drop (length b - 2) b = [b ! (length b - 2), b ! (length b - 1)]"
    if "2 < length b"
    using that by (auto simp: list_eq_iff_nth_eq nth_Cons split: nat.splits)
  ultimately show ?thesis
    by (auto simp: ParseRapdu_def index_def slice_to_def slice_def nat_diff_distrib')
qed

theorem ParseRapdu_spec_witness:
  "length [0x90, 0x00 :: byte] = 2 \<and>
   ParseRapdu [0x90, 0x00] = Some (Inr \<lparr>RData = [], SW1 = 0x90, SW2 = 0x00\<rparr>) \<and>
   2 < length [0x01, 0x02, 0x62, 0x83 :: byte] \<and>
   length [0x01, 0x02, 0x62, 0x83 :: byte] \<le> 65538 \<and>
   (\<exists>r. ParseRapdu [0x01, 0x02, 0x62, 0x83] = Some (Inr r) \<and> RData r = [0x01, 0x02] \<and>
        [SW1 r, SW2 r] = [0x62, 0x83])"
  using ParseRapdu_spec [of "[0x90, 0x00]"] ParseRapdu_spec [of "[0x01, 0x02, 0x62, 0x83]"]
  by auto

subsection \<open>C9: the ranges of the status classification\<close>

text \<open>
  Claim C9. \<open>IsWarning\<close> holds if and only if SW1 is \<open>0x62\<close> or \<open>0x63\<close>; \<open>IsError\<close>
  holds if and only if SW1 is \<open>0x64\<close>, \<open>0x65\<close> or between \<open>0x67\<close> and \<open>0x6F\<close>
  inclusive. A response with SW1 = \<open>0x6A\<close> is an error, and neither a success nor a
  warning.
\<close>

theorem status_ranges:
  "(IsWarning r \<longleftrightarrow> SW1 r \<in> {0x62, 0x63}) \<and>
   (IsError r \<longleftrightarrow> SW1 r \<in> {0x64, 0x65} \<union> {0x67 .. 0x6F}) \<and>
   IsError \<lparr>RData = d, SW1 = 0x6A, SW2 = s\<rparr> \<and>
   \<not> IsSuccess \<lparr>RData = d, SW1 = 0x6A, SW2 = s\<rparr> \<and>
   \<not> IsWarning \<lparr>RData = d, SW1 = 0x6A, SW2 = s\<rparr>"
  by (auto simp: IsWarning_def IsError_def IsSuccess_def)

subsection \<open>C10: the status predicates exclude each other\<close>

text \<open>
  Claim C10. No status word satisfies two of \<open>IsSuccess\<close>, \<open>IsWarning\<close> and \<open>IsError\<close>.
\<close>

theorem status_disjoint:
  "\<not> (IsSuccess r \<and> IsWarning r) \<and> \<not> (IsSuccess r \<and> IsError r) \<and>
   \<not> (IsWarning r \<and> IsError r)"
  by (auto simp: IsSuccess_def IsWarning_def IsError_def)

end
